theory Spec2Isabelle
  imports Complex_Main
begin

section \<open>The column model of \<open>scripts/column.py\<close>\<close>

text \<open>
  The script integrates one scalar rate equation along a column and plots the
  normalised profile. Its numbers are Python \<open>float\<close>s, IEEE binary64 doubles.
  The rate function is given two readings of the same source line:

    \<^item> \<open>dCgdz\<close> computes in exact arithmetic over \<^typ>\<open>real\<close>, with the decimal
      literals as the numbers they denote. It decides what does not depend on
      rounding: which divisor can be zero, the sign, the role of each argument,
      and what the expression means mathematically.
    \<^item> \<open>dCgdz_double\<close> rounds the literals and the result of every operation to
      the nearest double, as the interpreter does. It is the value the program
      returns.

  The integer parameters only ever meet floats under \<open>/\<close>, \<open>*\<close> and \<open>+\<close>, where
  Python converts them to floats first.
\<close>

subsection \<open>Errors and true division\<close>

datatype error = ZeroDivisionError

text \<open>Sequencing of fallible steps: the first raise ends the evaluation.\<close>

definition and_then :: "error + 'a \<Rightarrow> ('a \<Rightarrow> error + 'b) \<Rightarrow> error + 'b" where
  "and_then r f = (case r of Inl e \<Rightarrow> Inl e | Inr v \<Rightarrow> f v)"

text \<open>Python's \<open>a / b\<close> on scalars: raises on a zero divisor.\<close>

definition truediv :: "real \<Rightarrow> real \<Rightarrow> error + real" where
  "truediv a b = (if b = 0 then Inl ZeroDivisionError else Inr (a / b))"

subsection \<open>Parameters\<close>

definition alpha :: real where "alpha = 9 / 10"
definition V0 :: real where "V0 = 2"
definition X :: real where "X = 2"
definition Y :: real where "Y = 5"
definition mu :: real where "mu = 5"
definition K :: real where "K = 1"
definition m :: real where "m = 1"
definition delta :: real where "delta = 1 / 1000"

lemmas parameter_defs = alpha_def V0_def X_def Y_def mu_def K_def m_def delta_def

subsection \<open>Rate function\<close>

text \<open>
  \<open>-alpha / V0 * X / Y * mu * Cg / m / (K + Cg / m) * delta\<close>: unary minus binds
  tighter than \<open>/\<close> and \<open>*\<close>, which associate to the left; the operands are
  evaluated left to right, so the parenthesised divisor is computed just before
  the division that uses it.
\<close>

definition dCgdz :: "real \<Rightarrow> real \<Rightarrow> error + real" where
  "dCgdz Cg z =
     and_then (truediv (- alpha) V0) (\<lambda>t1.
     and_then (truediv (t1 * X) Y) (\<lambda>t2.
     and_then (truediv (t2 * mu * Cg) m) (\<lambda>t3.
     and_then (truediv Cg m) (\<lambda>q.
     and_then (truediv t3 (K + q)) (\<lambda>t4.
     Inr (t4 * delta))))))"

text \<open>
  The expression as the specification writes it,
  \<open>-(alpha/V0) \<cdot> (X/Y) \<cdot> mu \<cdot> (Cg/m) / (K + Cg/m) \<cdot> delta\<close>,
  with the same guarded division.
\<close>

definition dCgdz_spec :: "real \<Rightarrow> error + real" where
  "dCgdz_spec Cg =
     and_then (truediv alpha V0) (\<lambda>a.
     and_then (truediv X Y) (\<lambda>b.
     and_then (truediv Cg m) (\<lambda>c.
     and_then (truediv Cg m) (\<lambda>c'.
     and_then (truediv (- a * b * mu * c) (K + c')) (\<lambda>r.
     Inr (r * delta))))))"

subsection \<open>Binary64 arithmetic\<close>

text \<open>
  A double is a finite rational, an infinity or a NaN. The two zeros are one
  value here: they compare equal, and the only operation that tells them apart,
  division by zero, raises in Python for either.
\<close>

datatype double = Finite rat | PosInf | NegInf | NaN

definition pow2 :: "int \<Rightarrow> rat" where
  "pow2 k = (if 0 \<le> k then 2 ^ nat k else 1 / 2 ^ nat (- k))"

text \<open>
  \<open>ilog2 x\<close> is the binary exponent of a positive \<open>x\<close>, the \<open>k\<close> with
  \<open>2\<^sup>k \<le> x < 2\<^sup>k\<^sup>+\<^sup>1\<close>, found by halving or doubling. The search is cut off after
  2200 steps: sums, products and quotients of doubles lie between \<open>2\<^sup>-\<^sup>2\<^sup>1\<^sup>4\<^sup>8\<close> and
  \<open>2\<^sup>2\<^sup>0\<^sup>9\<^sup>8\<close> in magnitude, and for any other \<open>x\<close> the cut-off exponent is still
  below the subnormal range or above the overflow threshold, where rounding no
  longer depends on it.
\<close>

fun ilog2_aux :: "nat \<Rightarrow> rat \<Rightarrow> int \<Rightarrow> int" where
  "ilog2_aux 0 x e = e"
| "ilog2_aux (Suc n) x e =
     (if 2 \<le> x then ilog2_aux n (x / 2) (e + 1)
      else if x < 1 then ilog2_aux n (2 * x) (e - 1)
      else e)"

definition ilog2 :: "rat \<Rightarrow> int" where
  "ilog2 x = ilog2_aux 2200 x 0"

text \<open>Nearest integer, a tie going to the even neighbour.\<close>

definition rne :: "rat \<Rightarrow> int" where
  "rne y = (let n = \<lfloor>y\<rfloor>; d = y - of_int n
            in if d < 1 / 2 then n else if 1 / 2 < d then n + 1
               else if even n then n else n + 1)"

text \<open>
  Rounding to nearest, ties to even, with a 53-bit significand: the spacing of
  the doubles around \<open>x\<close> is \<open>2\<^sup>e\<^sup>-\<^sup>5\<^sup>2\<close> for the exponent \<open>e\<close> of \<open>x\<close>, and
  \<open>2\<^sup>-\<^sup>1\<^sup>0\<^sup>7\<^sup>4\<close> in the subnormal range. A result of magnitude \<open>2\<^sup>1\<^sup>0\<^sup>2\<^sup>4\<close> or more
  overflows to an infinity.
\<close>

definition round_double :: "rat \<Rightarrow> double" where
  "round_double x =
     (if x = 0 then Finite 0
      else let e = max (ilog2 \<bar>x\<bar>) (- 1022);
               q = pow2 (e - 52);
               r = of_int (rne (x / q)) * q
           in if pow2 1024 \<le> \<bar>r\<bar> then (if 0 < x then PosInf else NegInf) else Finite r)"

text \<open>The largest finite double.\<close>

definition max_double :: rat where
  "max_double = pow2 1024 - pow2 971"

definition signed_inf :: "bool \<Rightarrow> double" where
  "signed_inf negative = (if negative then NegInf else PosInf)"

fun double_neg :: "double \<Rightarrow> double" where
  "double_neg (Finite x) = Finite (- x)"
| "double_neg PosInf = NegInf"
| "double_neg NegInf = PosInf"
| "double_neg NaN = NaN"

fun double_mul :: "double \<Rightarrow> double \<Rightarrow> double" where
  "double_mul (Finite x) (Finite y) = round_double (x * y)"
| "double_mul (Finite x) PosInf = (if x = 0 then NaN else signed_inf (x < 0))"
| "double_mul (Finite x) NegInf = (if x = 0 then NaN else signed_inf (0 < x))"
| "double_mul PosInf (Finite y) = (if y = 0 then NaN else signed_inf (y < 0))"
| "double_mul NegInf (Finite y) = (if y = 0 then NaN else signed_inf (0 < y))"
| "double_mul PosInf PosInf = PosInf"
| "double_mul PosInf NegInf = NegInf"
| "double_mul NegInf PosInf = NegInf"
| "double_mul NegInf NegInf = PosInf"
| "double_mul NaN b = NaN"
| "double_mul a NaN = NaN"

fun double_add :: "double \<Rightarrow> double \<Rightarrow> double" where
  "double_add (Finite x) (Finite y) = round_double (x + y)"
| "double_add (Finite x) PosInf = PosInf"
| "double_add (Finite x) NegInf = NegInf"
| "double_add PosInf (Finite y) = PosInf"
| "double_add NegInf (Finite y) = NegInf"
| "double_add PosInf PosInf = PosInf"
| "double_add NegInf NegInf = NegInf"
| "double_add PosInf NegInf = NaN"
| "double_add NegInf PosInf = NaN"
| "double_add NaN b = NaN"
| "double_add a NaN = NaN"

fun ieee_div :: "double \<Rightarrow> double \<Rightarrow> double" where
  "ieee_div (Finite x) (Finite y) = round_double (x / y)"
| "ieee_div (Finite x) PosInf = Finite 0"
| "ieee_div (Finite x) NegInf = Finite 0"
| "ieee_div PosInf (Finite y) = signed_inf (y < 0)"
| "ieee_div NegInf (Finite y) = signed_inf (0 < y)"
| "ieee_div PosInf PosInf = NaN"
| "ieee_div PosInf NegInf = NaN"
| "ieee_div NegInf PosInf = NaN"
| "ieee_div NegInf NegInf = NaN"
| "ieee_div NaN b = NaN"
| "ieee_div a NaN = NaN"

text \<open>
  Python's \<open>a / b\<close> on floats: a zero divisor raises, whatever the dividend;
  otherwise the quotient is the IEEE one.
\<close>

definition double_truediv :: "double \<Rightarrow> double \<Rightarrow> error + double" where
  "double_truediv a b = (if b = Finite 0 then Inl ZeroDivisionError else Inr (ieee_div a b))"

subsection \<open>Parameters and rate function in doubles\<close>

text \<open>
  The float literals \<open>0.9\<close> and \<open>0.001\<close> denote the doubles nearest to them; the
  integer parameters convert to floats without rounding.
\<close>

definition alpha_double :: double where "alpha_double = round_double (9 / 10)"
definition V0_double :: double where "V0_double = Finite 2"
definition X_double :: double where "X_double = Finite 2"
definition Y_double :: double where "Y_double = Finite 5"
definition mu_double :: double where "mu_double = Finite 5"
definition K_double :: double where "K_double = Finite 1"
definition m_double :: double where "m_double = Finite 1"
definition delta_double :: double where "delta_double = round_double (1 / 1000)"

text \<open>The source line once more, operation by operation, each one rounded.\<close>

definition dCgdz_double :: "double \<Rightarrow> double \<Rightarrow> error + double" where
  "dCgdz_double Cg z =
     and_then (double_truediv (double_neg alpha_double) V0_double) (\<lambda>t1.
     and_then (double_truediv (double_mul t1 X_double) Y_double) (\<lambda>t2.
     and_then (double_truediv (double_mul (double_mul t2 mu_double) Cg) m_double) (\<lambda>t3.
     and_then (double_truediv Cg m_double) (\<lambda>q.
     and_then (double_truediv t3 (double_add K_double q)) (\<lambda>t4.
     Inr (double_mul t4 delta_double))))))"

text \<open>
  The expression in the grouping of the specification, evaluated in doubles:
  the quotients \<open>alpha/V0\<close>, \<open>X/Y\<close> and \<open>Cg/m\<close> are formed first.
\<close>

definition dCgdz_spec_double :: "double \<Rightarrow> error + double" where
  "dCgdz_spec_double Cg =
     and_then (double_truediv alpha_double V0_double) (\<lambda>a.
     and_then (double_truediv X_double Y_double) (\<lambda>b.
     and_then (double_truediv Cg m_double) (\<lambda>c.
     and_then (double_truediv Cg m_double) (\<lambda>c'.
     and_then (double_truediv
                 (double_mul (double_mul (double_mul (double_neg a) b) mu_double) c)
                 (double_add K_double c')) (\<lambda>r.
     Inr (double_mul r delta_double))))))"

text \<open>Initial condition.\<close>

definition Cg0 :: real where "Cg0 = 195 / 1000000"

subsection \<open>Integration grid\<close>

text \<open>
  Modelled from the spec: \<open>np.linspace\<close> is library code that the repository
  calls and does not contain. It is modelled as the specification describes the
  grid, \<open>num\<close> evenly spaced values from \<open>start\<close> to \<open>stop\<close>: the \<open>i\<close>-th value is
  \<open>start + i \<cdot> (stop - start) / (num - 1)\<close>.
\<close>

definition linspace :: "real \<Rightarrow> real \<Rightarrow> nat \<Rightarrow> real list" where
  "linspace start stop num =
     map (\<lambda>i. start + real i * ((stop - start) / real (num - 1))) [0..<num]"

text \<open>
  The script's global \<open>z\<close>; it is named \<open>z_grid\<close> here because \<open>z\<close> is also the
  formal parameter of the rate function.
\<close>

definition z_grid :: "real list" where
  "z_grid = linspace 0 5 100"

subsection \<open>Integrator\<close>

text \<open>
  Modelled from the spec: \<open>scipy.integrate.odeint\<close> is library code that the
  repository calls and does not contain. The specification gives its contract:
  one solution value per grid point, the first being the initial condition, the
  others obtained by an adaptive stepper that carries the solution from one grid
  point to the next. The stepper itself is not described; it is a parameter
  \<open>lsoda f y t tout\<close>, the value at \<open>tout\<close> of the solution that is \<open>y\<close> at \<open>t\<close>,
  and it may end with an error (a raise of the rate function passes through).
\<close>

type_synonym rhs = "real \<Rightarrow> real \<Rightarrow> error + real"
type_synonym stepper = "rhs \<Rightarrow> real \<Rightarrow> real \<Rightarrow> real \<Rightarrow> error + real"

fun advance :: "stepper \<Rightarrow> rhs \<Rightarrow> real \<Rightarrow> real \<Rightarrow> real list \<Rightarrow> error + real list" where
  "advance lsoda f y t [] = Inr []"
| "advance lsoda f y t (tout # ts) =
     and_then (lsoda f y t tout) (\<lambda>y'.
     and_then (advance lsoda f y' tout ts) (\<lambda>ys.
     Inr (y' # ys)))"

definition odeint :: "stepper \<Rightarrow> rhs \<Rightarrow> real \<Rightarrow> real list \<Rightarrow> error + real list" where
  "odeint lsoda f y0 ts =
     (case ts of
        [] \<Rightarrow> Inr []
      | t0 # rest \<Rightarrow> and_then (advance lsoda f y0 t0 rest) (\<lambda>ys. Inr (y0 # ys)))"

subsection \<open>Plot\<close>

text \<open>
  The pyplot calls act on one implicit current figure. The figure is modelled by
  what the calls of the script can change (the plotted lines, the two axis
  labels, whether the window was shown) and by the list of files written, which
  only \<open>savefig\<close> extends.
\<close>

record figure =
  lines :: "(real list \<times> real list) list"
  xlabel :: string
  ylabel :: string
  shown :: bool
  files :: "string list"

datatype plt_call =
    Plot "real list" "real list"
  | XLabel string
  | YLabel string
  | Show
  | SaveFig string

fun plt :: "plt_call \<Rightarrow> figure \<Rightarrow> figure" where
  "plt (Plot xs ys) fig = fig\<lparr>lines := lines fig @ [(xs, ys)]\<rparr>"
| "plt (XLabel s) fig = fig\<lparr>xlabel := s\<rparr>"
| "plt (YLabel s) fig = fig\<lparr>ylabel := s\<rparr>"
| "plt Show fig = fig\<lparr>shown := True\<rparr>"
| "plt (SaveFig path) fig = fig\<lparr>files := files fig @ [path]\<rparr>"

definition new_figure :: figure where
  "new_figure = \<lparr>lines = [], xlabel = [], ylabel = [], shown = False, files = []\<rparr>"

text \<open>
  The last four statements of the script, for the grid \<open>zs\<close> and the solution
  \<open>ys\<close>. \<open>y / Cg0\<close> divides an array by a scalar, element by element.
\<close>

definition plot_calls :: "real list \<Rightarrow> real list \<Rightarrow> plt_call list" where
  "plot_calls zs ys =
     [Plot zs (map (\<lambda>v. v / Cg0) ys), XLabel ''z [m]'', YLabel ''Cg [g/L]'', Show]"

definition visualise :: "real list \<Rightarrow> real list \<Rightarrow> figure" where
  "visualise zs ys = foldl (\<lambda>fig c. plt c fig) new_figure (plot_calls zs ys)"

section \<open>Properties of the rate function\<close>

lemma and_then_Inr [simp]: "and_then (Inr v) f = f v"
  by (simp add: and_then_def)

lemma and_then_Inl [simp]: "and_then (Inl e) f = Inl e"
  by (simp add: and_then_def)

lemma dCgdz_closed_form:
  "dCgdz Cg z =
     (if 1 + Cg = 0 then Inl ZeroDivisionError else Inr (- (9 / 10000) * Cg / (1 + Cg)))"
  by (simp add: dCgdz_def truediv_def parameter_defs)

lemma dCgdz_nonpos:
  assumes "0 \<le> Cg"
  shows "\<exists>v. dCgdz Cg z = Inr v \<and> v \<le> 0"
proof -
  from assms have "1 + Cg \<noteq> 0" and "0 < 1 + Cg" by simp_all
  then have "dCgdz Cg z = Inr (- (9 / 10000) * Cg / (1 + Cg))"
    by (simp add: dCgdz_closed_form)
  moreover from assms \<open>0 < 1 + Cg\<close> have "- (9 / 10000) * Cg / (1 + Cg) \<le> 0"
    by (simp add: divide_nonpos_pos)
  ultimately show ?thesis by blast
qed

text \<open>
  In exact arithmetic, with the hard-coded parameters, the rate is
  \<open>-0.0009 \<cdot> Cg / (1 + Cg)\<close> wherever \<open>1 + Cg\<close> is not zero (and a division
  error there); for a nonnegative concentration this value lies in the interval
  \<open>(-0.0009, 0]\<close> and its magnitude is at most \<open>0.0009 \<cdot> Cg\<close>.
\<close>

lemma dCgdz_exact_bounds:
  "dCgdz Cg z =
     (if 1 + Cg = 0 then Inl ZeroDivisionError else Inr (- (9 / 10000) * Cg / (1 + Cg)))
   \<and> (0 \<le> Cg \<longrightarrow>
        (\<exists>v. dCgdz Cg z = Inr v \<and> - (9 / 10000) < v \<and> v \<le> 0
           \<and> \<bar>v\<bar> < 9 / 10000 \<and> \<bar>v\<bar> \<le> 9 / 10000 * Cg))"
proof (intro conjI impI)
  show "dCgdz Cg z =
     (if 1 + Cg = 0 then Inl ZeroDivisionError else Inr (- (9 / 10000) * Cg / (1 + Cg)))"
    by (rule dCgdz_closed_form)
next
  assume nonneg: "0 \<le> Cg"
  define q where "q = Cg / (1 + Cg)"
  define v where "v = - (9 / 10000) * q"
  from nonneg have pos: "0 < 1 + Cg" by simp
  then have val: "dCgdz Cg z = Inr v"
    by (simp add: dCgdz_closed_form v_def q_def)
  have q_lt: "q < 1" using pos by (simp add: q_def)
  have q_ge: "0 \<le> q" using nonneg pos by (simp add: q_def)
  have q_le: "q \<le> Cg"
  proof -
    have "0 \<le> Cg * Cg" using nonneg by simp
    then have "Cg \<le> Cg * (1 + Cg)" by (simp add: distrib_left)
    then show ?thesis using pos by (simp add: q_def divide_le_eq)
  qed
  have upper: "v \<le> 0" using q_ge unfolding v_def by linarith
  have lower: "- (9 / 10000) < v" using q_lt unfolding v_def by linarith
  have abs_eq: "\<bar>v\<bar> = 9 / 10000 * q" using upper unfolding v_def by linarith
  have "\<bar>v\<bar> < 9 / 10000" using q_lt unfolding abs_eq by linarith
  moreover have "\<bar>v\<bar> \<le> 9 / 10000 * Cg" using q_le unfolding abs_eq by linarith
  ultimately show "\<exists>v. dCgdz Cg z = Inr v \<and> - (9 / 10000) < v \<and> v \<le> 0
           \<and> \<bar>v\<bar> < 9 / 10000 \<and> \<bar>v\<bar> \<le> 9 / 10000 * Cg"
    using val upper lower by blast
qed

text \<open>
  C1 (amended). The left-to-right chain of the source denotes, in exact
  arithmetic, the expression of the specification: at every concentration and
  position both either divide by zero or have the same value. The proof does not
  look at the parameter values. Nothing is said here about the double that the
  program returns.
\<close>

theorem dCgdz_groups_as_spec: "dCgdz Cg z = dCgdz_spec Cg"
  by (simp add: dCgdz_def dCgdz_spec_def truediv_def)

text \<open>C2. At zero concentration the rate is zero, whatever the position.\<close>

theorem dCgdz_zero: "dCgdz 0 z = Inr 0"
  by (simp add: dCgdz_closed_form)

text \<open>
  C6. The rate does not depend on the position argument: it is a function of the
  concentration and the fixed parameters alone.
\<close>

theorem dCgdz_ignores_z: "dCgdz Cg z1 = dCgdz Cg z2"
  by (simp add: dCgdz_def)

text \<open>
  C7. For a nonnegative concentration every divisor of the expression is nonzero,
  so the evaluation returns a number and never raises.
\<close>

theorem dCgdz_no_zero_division:
  assumes "0 \<le> Cg"
  shows "V0 \<noteq> 0 \<and> Y \<noteq> 0 \<and> m \<noteq> 0 \<and> K + Cg / m \<noteq> 0 \<and> (\<exists>v. dCgdz Cg z = Inr v)"
  using assms by (simp add: dCgdz_closed_form parameter_defs)

theorem dCgdz_no_zero_division_witness:
  "(0::real) \<le> Cg0 \<and> K + Cg0 / m \<noteq> 0 \<and> (\<exists>v. dCgdz Cg0 0 = Inr v)"
proof -
  have nonneg: "(0::real) \<le> Cg0" by (simp add: Cg0_def)
  from dCgdz_no_zero_division [OF nonneg, of 0] nonneg show ?thesis by blast
qed

section \<open>The rate function in doubles\<close>

subsection \<open>Rounding\<close>

lemma pow2_powi: "pow2 k = 2 powi k"
  by (simp add: pow2_def power_int_def inverse_eq_divide power_one_over)

lemma pow2_pos: "0 < pow2 k"
  by (simp add: pow2_powi)

lemma pow2_Suc: "pow2 (k + 1) = 2 * pow2 k"
  by (simp add: pow2_powi power_int_add)

lemma pow2_pred: "pow2 (k - 1) = pow2 k / 2"
  by (simp add: pow2_powi power_int_diff)

lemma pow2_less_iff: "pow2 a < pow2 b \<longleftrightarrow> a < b"
proof
  assume less: "pow2 a < pow2 b"
  show "a < b"
  proof (rule ccontr)
    assume "\<not> a < b"
    then have "b \<le> a" by simp
    then have "pow2 b \<le> pow2 a"
      unfolding pow2_powi by (rule power_int_increasing) simp
    with less show False by simp
  qed
next
  assume "a < b"
  then show "pow2 a < pow2 b"
    unfolding pow2_powi by (rule power_int_strict_increasing) simp
qed

lemma ilog2_aux_exact:
  assumes "pow2 k \<le> x" and "x < pow2 (k + 1)" and "\<bar>k\<bar> \<le> int n"
  shows "ilog2_aux n x e = e + k"
  using assms
proof (induction n arbitrary: x e k)
  case 0
  then show ?case by simp
next
  case (Suc n)
  have one: "pow2 0 = 1" and two: "pow2 1 = 2" by (simp_all add: pow2_def)
  show ?case
  proof (cases "2 \<le> x")
    case True
    with Suc.prems(2) have "pow2 1 < pow2 (k + 1)" by (simp add: two)
    then have kpos: "0 < k" by (simp add: pow2_less_iff)
    have "pow2 (k - 1) \<le> x / 2" using Suc.prems(1) by (simp add: pow2_pred)
    moreover have "x / 2 < pow2 (k - 1 + 1)" using Suc.prems(2) by (simp add: pow2_Suc)
    moreover have "\<bar>k - 1\<bar> \<le> int n" using kpos Suc.prems(3) by simp
    ultimately have "ilog2_aux n (x / 2) (e + 1) = e + 1 + (k - 1)" by (rule Suc.IH)
    with True show ?thesis by simp
  next
    case False
    show ?thesis
    proof (cases "x < 1")
      case True
      with Suc.prems(1) have "pow2 k < pow2 0" by (simp add: one)
      then have kneg: "k < 0" by (simp add: pow2_less_iff)
      have "pow2 (k + 1) \<le> 2 * x" using Suc.prems(1) by (simp add: pow2_Suc)
      moreover have "2 * x < pow2 (k + 1 + 1)"
      proof -
        from Suc.prems(2) have "2 * x < 2 * pow2 (k + 1)" by simp
        also have "2 * pow2 (k + 1) = pow2 (k + 1 + 1)" by (rule pow2_Suc [symmetric])
        finally show ?thesis .
      qed
      moreover have "\<bar>k + 1\<bar> \<le> int n" using kneg Suc.prems(3) by simp
      ultimately have "ilog2_aux n (2 * x) (e - 1) = e - 1 + (k + 1)" by (rule Suc.IH)
      with True \<open>\<not> 2 \<le> x\<close> show ?thesis by simp
    next
      case False
      with Suc.prems(2) have "pow2 0 < pow2 (k + 1)" by (simp add: one)
      then have "0 \<le> k" by (simp add: pow2_less_iff)
      moreover from \<open>\<not> 2 \<le> x\<close> Suc.prems(1) have "pow2 k < pow2 1" by (simp add: two)
      then have "k < 1" by (simp add: pow2_less_iff)
      ultimately have "k = 0" by simp
      with False \<open>\<not> 2 \<le> x\<close> show ?thesis by simp
    qed
  qed
qed

lemma ilog2_exact:
  assumes "pow2 k \<le> x" and "x < pow2 (k + 1)" and "\<bar>k\<bar> \<le> 2200"
  shows "ilog2 x = k"
proof -
  from assms have "ilog2_aux 2200 x 0 = 0 + k"
    by (intro ilog2_aux_exact) simp_all
  then show ?thesis by (simp add: ilog2_def)
qed

lemma rne_nearest:
  assumes "2 * \<bar>y - of_int n\<bar> < 1"
  shows "rne y = n"
proof (cases "of_int n \<le> y")
  case True
  with assms have "y < of_int n + 1" by simp
  with True have fl: "\<lfloor>y\<rfloor> = n" by (simp add: floor_unique)
  from True assms have "y - of_int n < 1 / 2" by simp
  with fl show ?thesis by (simp add: rne_def)
next
  case False
  with assms have "of_int (n - 1) \<le> y" "y < of_int (n - 1) + 1" by simp_all
  then have fl: "\<lfloor>y\<rfloor> = n - 1" by (rule floor_unique)
  from False assms have "1 / 2 < y - of_int (n - 1)" by simp
  with fl show ?thesis by (simp add: rne_def)
qed

lemma rne_tie:
  assumes "2 * \<bar>y - of_int n\<bar> = 1" and "even n"
  shows "rne y = n"
proof (cases "of_int n \<le> y")
  case True
  with assms(1) have y: "y = of_int n + 1 / 2" by simp
  then have "of_int n \<le> y" "y < of_int n + 1" by simp_all
  then have fl: "\<lfloor>y\<rfloor> = n" by (rule floor_unique)
  with y assms(2) show ?thesis by (simp add: rne_def)
next
  case False
  with assms(1) have y: "y = of_int (n - 1) + 1 / 2" by simp
  then have "of_int (n - 1) \<le> y" "y < of_int (n - 1) + 1" by simp_all
  then have fl: "\<lfloor>y\<rfloor> = n - 1" by (rule floor_unique)
  with y assms(2) show ?thesis by (simp add: rne_def)
qed

lemma round_double_mantissa:
  assumes "pow2 k \<le> \<bar>x\<bar> \<and> \<bar>x\<bar> < pow2 (k + 1) \<and> \<bar>k\<bar> \<le> 2200"
    and "rne (x / pow2 (max k (- 1022) - 52)) = n"
    and "\<bar>of_int n * pow2 (max k (- 1022) - 52)\<bar> < pow2 1024"
  shows "round_double x = Finite (of_int n * pow2 (max k (- 1022) - 52))"
proof -
  from assms(1) have "ilog2 \<bar>x\<bar> = k" by (intro ilog2_exact) simp_all
  moreover from assms(1) pow2_pos [of k] have "x \<noteq> 0" by auto
  ultimately show ?thesis using assms(2,3) by (simp add: round_double_def Let_def)
qed

lemma round_double_nearest:
  assumes "pow2 k \<le> \<bar>x\<bar> \<and> \<bar>x\<bar> < pow2 (k + 1) \<and> \<bar>k\<bar> \<le> 2200"
    and "2 * \<bar>x / pow2 (max k (- 1022) - 52) - of_int n\<bar> < 1"
    and "\<bar>of_int n * pow2 (max k (- 1022) - 52)\<bar> < pow2 1024"
  shows "round_double x = Finite (of_int n * pow2 (max k (- 1022) - 52))"
  using assms(1) rne_nearest [OF assms(2)] assms(3) by (rule round_double_mantissa)

lemma round_double_tie:
  assumes "pow2 k \<le> \<bar>x\<bar> \<and> \<bar>x\<bar> < pow2 (k + 1) \<and> \<bar>k\<bar> \<le> 2200"
    and "2 * \<bar>x / pow2 (max k (- 1022) - 52) - of_int n\<bar> = 1 \<and> even n"
    and "\<bar>of_int n * pow2 (max k (- 1022) - 52)\<bar> < pow2 1024"
  shows "round_double x = Finite (of_int n * pow2 (max k (- 1022) - 52))"
proof -
  from assms(2) have "rne (x / pow2 (max k (- 1022) - 52)) = n" by (intro rne_tie) simp_all
  with assms(1) show ?thesis using assms(3) by (rule round_double_mantissa)
qed

lemma pow2_le_iff: "pow2 a \<le> pow2 b \<longleftrightarrow> a \<le> b"
  using pow2_less_iff [of b a] by (simp add: not_less [symmetric])

lemma pow2_plus2: "pow2 (2 + j) = 4 * pow2 j"
  using pow2_Suc [of "j + 1"] pow2_Suc [of j] by (simp add: add.commute)

lemma ilog2_aux_bounds:
  assumes "0 < x"
  shows "(x < pow2 (ilog2_aux n x e - e + 1) \<or> ilog2_aux n x e - e = int n)
       \<and> (pow2 (ilog2_aux n x e - e) \<le> x \<or> ilog2_aux n x e - e = - int n)"
  using assms
proof (induction n arbitrary: x e)
  case 0
  then show ?case by simp
next
  case (Suc n)
  have one: "pow2 0 = 1" and two: "pow2 1 = 2" by (simp_all add: pow2_def)
  show ?case
  proof (cases "2 \<le> x")
    case True
    define r where "r = ilog2_aux n (x / 2) (e + 1)"
    define k where "k = r - e"
    have res: "ilog2_aux (Suc n) x e - e = k" using True by (simp add: k_def r_def)
    have shift: "r - (e + 1) + 1 = k" "r - (e + 1) = k - 1" by (simp_all add: k_def)
    from Suc.prems have "0 < x / 2" by simp
    from Suc.IH [OF this, of "e + 1"]
    have up: "x / 2 < pow2 k \<or> k - 1 = int n"
      and low: "pow2 (k - 1) \<le> x / 2 \<or> k - 1 = - int n"
      unfolding r_def [symmetric] shift by simp_all
    have "x < pow2 (k + 1) \<or> k = int (Suc n)"
      using up by (auto simp: pow2_Suc)
    moreover have "pow2 k \<le> x"
    proof (cases "pow2 (k - 1) \<le> x / 2")
      case True
      then show ?thesis by (simp add: pow2_pred)
    next
      case False
      with low have "k \<le> 1" by simp
      then have "pow2 k \<le> pow2 1" by (simp add: pow2_le_iff)
      with \<open>2 \<le> x\<close> show ?thesis by (simp add: two)
    qed
    ultimately show ?thesis unfolding res by blast
  next
    case False
    show ?thesis
    proof (cases "x < 1")
      case True
      define r where "r = ilog2_aux n (2 * x) (e - 1)"
      define k where "k = r - e"
      have res: "ilog2_aux (Suc n) x e - e = k" using True False by (simp add: k_def r_def)
      have shift: "r - (e - 1) + 1 = k + 2" "r - (e - 1) = k + 1" by (simp_all add: k_def)
      from Suc.prems have "0 < 2 * x" by simp
      from Suc.IH [OF this, of "e - 1"]
      have up: "2 * x < pow2 (2 + k) \<or> k + 1 = int n"
        and low: "pow2 (k + 1) \<le> 2 * x \<or> k + 1 = - int n"
        unfolding r_def [symmetric] shift by simp_all
      have "pow2 k \<le> x \<or> k = - int (Suc n)"
        using low by (auto simp: pow2_Suc)
      moreover have "x < pow2 (k + 1)"
      proof (cases "2 * x < pow2 (2 + k)")
        case True
        then show ?thesis by (simp add: pow2_plus2 pow2_Suc)
      next
        case False
        with up have "0 \<le> k + 1" by simp
        then have "pow2 0 \<le> pow2 (k + 1)" by (simp only: pow2_le_iff)
        with \<open>x < 1\<close> show ?thesis by (simp add: one)
      qed
      ultimately show ?thesis unfolding res by blast
    next
      case False
      with \<open>\<not> 2 \<le> x\<close> show ?thesis by (simp add: one two)
    qed
  qed
qed

lemma rne_close: "\<bar>of_int (rne y) - y\<bar> \<le> 1 / 2"
proof -
  have "of_int \<lfloor>y\<rfloor> \<le> y" "y < of_int \<lfloor>y\<rfloor> + 1" by linarith+
  then show ?thesis by (auto simp: rne_def Let_def)
qed

lemma rne_sign:
  shows "0 \<le> y \<Longrightarrow> 0 \<le> rne y" and "y \<le> 0 \<Longrightarrow> rne y \<le> 0"
proof -
  assume "0 \<le> y"
  with rne_close [of y] have "(- 1 :: rat) < of_int (rne y)" by linarith
  then have "(of_int (- 1) :: rat) < of_int (rne y)" by simp
  then have "- 1 < rne y" by (simp only: of_int_less_iff)
  then show "0 \<le> rne y" by simp
next
  assume "y \<le> 0"
  with rne_close [of y] have "(of_int (rne y) :: rat) < 1" by linarith
  then have "(of_int (rne y) :: rat) < of_int 1" by simp
  then have "rne y < 1" by (simp only: of_int_less_iff)
  then show "rne y \<le> 0" by simp
qed

lemma rne_abs_less:
  assumes "\<bar>y\<bar> + 1 / 2 < of_int j"
  shows "\<bar>rne y\<bar> < j"
proof -
  from rne_close [of y] assms have "\<bar>(of_int (rne y) :: rat)\<bar> < of_int j" by linarith
  then have "(of_int \<bar>rne y\<bar> :: rat) < of_int j" by simp
  then show ?thesis by (simp only: of_int_less_iff)
qed

lemma pow2_add: "pow2 (a + b) = pow2 a * pow2 b"
  by (simp add: pow2_powi power_int_add)

lemma ilog2_bounds:
  assumes "0 < x"
  shows "x < pow2 (ilog2 x + 1) \<or> ilog2 x = 2200"
    and "pow2 (ilog2 x) \<le> x \<or> ilog2 x = - 2200"
  using ilog2_aux_bounds [OF assms, of 2200 0] by (simp_all add: ilog2_def)

lemma round_double_error:
  assumes "\<bar>x\<bar> < pow2 1024 - pow2 970"
  shows "\<exists>r. round_double x = Finite r
           \<and> \<bar>r - x\<bar> \<le> \<bar>x\<bar> / 2 ^ 53 + 1 / 2 ^ 1075
           \<and> \<bar>r\<bar> \<le> pow2 1024 - pow2 971
           \<and> (0 \<le> x \<longrightarrow> 0 \<le> r) \<and> (x \<le> 0 \<longrightarrow> r \<le> 0)"
proof (cases "x = 0")
  case True
  then show ?thesis by (simp add: round_double_def pow2_def)
next
  case False
  define k where "k = ilog2 \<bar>x\<bar>"
  define e where "e = max k (- 1022)"
  define q where "q = pow2 (e - 52)"
  define y where "y = x / q"
  define n where "n = rne y"
  define r where "r = of_int n * q"
  have qpos: "0 < q" by (simp add: q_def pow2_pos)
  from False have xpos: "0 < \<bar>x\<bar>" by simp
  note up = ilog2_bounds(1) [OF xpos, folded k_def]
  note low = ilog2_bounds(2) [OF xpos, folded k_def]
  have big: "pow2 970 > 0" by (rule pow2_pos)
  have k_le: "k \<le> 1023"
  proof (rule ccontr)
    assume "\<not> k \<le> 1023"
    then have "1024 \<le> k" by simp
    then have "pow2 1024 \<le> pow2 k" by (simp only: pow2_le_iff)
    moreover from \<open>1024 \<le> k\<close> low have "pow2 k \<le> \<bar>x\<bar>" by auto
    ultimately show False using assms big by linarith
  qed
  with up have x_less: "\<bar>x\<bar> < pow2 (k + 1)" by auto
  have e_range: "- 1022 \<le> e" "e \<le> 1023" "k \<le> e" using k_le by (simp_all add: e_def)
  have "pow2 (k + 1) \<le> pow2 (e + 1)" using e_range(3) by (simp only: pow2_le_iff)
  with x_less have x_less_e: "\<bar>x\<bar> < pow2 (e + 1)" by simp
  have split: "pow2 (e + 1) = q * 2 ^ 53"
  proof -
    have "pow2 ((e - 52) + 53) = pow2 (e - 52) * pow2 53" by (rule pow2_add)
    moreover have "(e - 52) + 53 = e + 1" by simp
    moreover have "pow2 53 = 2 ^ 53" by (simp add: pow2_def)
    ultimately show ?thesis by (simp add: q_def)
  qed
  have absy: "\<bar>y\<bar> = \<bar>x\<bar> / q" using qpos by (simp add: y_def)
  have close: "\<bar>r - x\<bar> \<le> q / 2"
  proof -
    have "r - x = (of_int n - y) * q" using qpos by (simp add: r_def y_def algebra_simps)
    then have "\<bar>r - x\<bar> = \<bar>of_int n - y\<bar> * q" using qpos by (simp add: abs_mult)
    also have "\<dots> \<le> 1 / 2 * q"
      using rne_close [of y] qpos unfolding n_def by (intro mult_right_mono) simp_all
    finally show ?thesis by simp
  qed
  have half: "q / 2 \<le> \<bar>x\<bar> / 2 ^ 53 + 1 / 2 ^ 1075"
  proof (cases "- 1022 \<le> k")
    case True
    then have "e = k" by (simp add: e_def)
    from True low have "pow2 k \<le> \<bar>x\<bar>" by auto
    moreover have "pow2 (k + 1) = q * 2 ^ 53" using split \<open>e = k\<close> by simp
    then have "2 * pow2 k = q * 2 ^ 53" by (simp add: pow2_Suc)
    then have "q / 2 = pow2 k / 2 ^ 53" by (simp add: field_simps)
    ultimately show ?thesis by (simp add: divide_right_mono)
  next
    case False
    then have "e = - 1022" by (simp add: e_def)
    then have "q = 1 / 2 ^ 1074" by (simp add: q_def pow2_def)
    then have "q / 2 = 1 / 2 ^ 1075" by simp
    then show ?thesis by simp
  qed
  have r_abs: "\<bar>r\<bar> = of_int \<bar>n\<bar> * q" using qpos by (simp add: r_def abs_mult)
  have r_le: "\<bar>r\<bar> \<le> pow2 1024 - pow2 971"
  proof (cases "e = 1023")
    case True
    then have qval: "q = pow2 971" by (simp add: q_def)
    have "\<bar>x\<bar> < (2 ^ 53 - 1 / 2) * q"
      using assms unfolding qval by (simp add: pow2_def)
    then have "\<bar>y\<bar> < 2 ^ 53 - 1 / 2" using qpos by (simp add: absy pos_divide_less_eq)
    then have "\<bar>y\<bar> + 1 / 2 < of_int (2 ^ 53)" by simp
    then have "\<bar>n\<bar> < 2 ^ 53" unfolding n_def by (rule rne_abs_less)
    then have "\<bar>n\<bar> \<le> 2 ^ 53 - 1" by simp
    then have "(of_int \<bar>n\<bar> :: rat) \<le> of_int (2 ^ 53 - 1)" by (simp only: of_int_le_iff)
    then have "of_int \<bar>n\<bar> * q \<le> (2 ^ 53 - 1) * q" using qpos by (intro mult_right_mono) simp_all
    also have "(2 ^ 53 - 1) * q = pow2 1024 - pow2 971" unfolding qval by (simp add: pow2_def)
    finally show ?thesis by (simp add: r_abs)
  next
    case False
    with e_range have "e + 1 \<le> 1023" by simp
    then have "pow2 (e + 1) \<le> pow2 1023" by (simp only: pow2_le_iff)
    also have "pow2 1023 \<le> pow2 1024 - pow2 971" by (simp add: pow2_def)
    finally have bound: "q * 2 ^ 53 \<le> pow2 1024 - pow2 971" by (simp add: split)
    from x_less_e have "\<bar>x\<bar> < 2 ^ 53 * q" by (simp add: split mult.commute)
    then have "\<bar>y\<bar> < 2 ^ 53" using qpos by (simp add: absy pos_divide_less_eq)
    then have "\<bar>y\<bar> + 1 / 2 < of_int (2 ^ 53 + 1)" by simp
    then have "\<bar>n\<bar> < 2 ^ 53 + 1" unfolding n_def by (rule rne_abs_less)
    then have "\<bar>n\<bar> \<le> 2 ^ 53" by simp
    then have "(of_int \<bar>n\<bar> :: rat) \<le> of_int (2 ^ 53)" by (simp only: of_int_le_iff)
    then have "of_int \<bar>n\<bar> * q \<le> 2 ^ 53 * q" using qpos by (intro mult_right_mono) simp_all
    with bound show ?thesis by (simp add: r_abs mult.commute)
  qed
  have "pow2 971 > 0" by (rule pow2_pos)
  with r_le have no_overflow: "\<not> pow2 1024 \<le> \<bar>r\<bar>" by linarith
  have rounded: "round_double x = Finite r"
    using False no_overflow
    by (simp add: round_double_def Let_def k_def [symmetric] e_def [symmetric]
        q_def [symmetric] y_def [symmetric] n_def [symmetric] r_def [symmetric])
  have pos: "0 \<le> r" if "0 \<le> x"
  proof -
    from that qpos have "0 \<le> y" by (simp add: y_def)
    then have "0 \<le> n" unfolding n_def by (rule rne_sign)
    with qpos show ?thesis by (simp add: r_def)
  qed
  have neg: "r \<le> 0" if "x \<le> 0"
  proof -
    from that qpos have "y \<le> 0" by (simp add: y_def divide_nonpos_pos)
    then have "n \<le> 0" unfolding n_def by (rule rne_sign)
    with qpos show ?thesis by (simp add: r_def mult_nonpos_nonneg)
  qed
  from close half have "\<bar>r - x\<bar> \<le> \<bar>x\<bar> / 2 ^ 53 + 1 / 2 ^ 1075" by linarith
  with rounded r_le pos neg show ?thesis by blast
qed

subsection \<open>Evaluation at two concentrations\<close>

text \<open>
  Each step names the exponent and the significand of one rounded operation;
  the simplifier checks them against the exact result. The operations on the
  parameters alone come first: they leave the constant \<open>-0.8999999999999999\<close>
  in front of \<open>Cg\<close>.
\<close>

lemma dCgdz_double_constants:
  "dCgdz_double Cg z =
     and_then (double_truediv (double_mul (Finite (- (2026619832316723 / 2251799813685248))) Cg) m_double) (\<lambda>t3.
     and_then (double_truediv Cg m_double) (\<lambda>q.
     and_then (double_truediv t3 (double_add K_double q)) (\<lambda>t4.
     Inr (double_mul t4 (Finite (1152921504606847 / 1152921504606846976))))))"
proof -
  have p1: "alpha_double = Finite (8106479329266893 / 9007199254740992)"
    using round_double_nearest [of "- 1" "9 / 10" "8106479329266893"]
    by (simp add: alpha_double_def pow2_def double_truediv_def)
  have p2: "double_truediv (double_neg alpha_double) V0_double = Inr (Finite (- (8106479329266893 / 18014398509481984)))"
    using round_double_nearest [of "- 2" "(- (8106479329266893 / 9007199254740992)) / 2" "- 8106479329266893"]
    by (simp add: p1 V0_double_def pow2_def double_truediv_def)
  have p3: "double_mul (Finite (- (8106479329266893 / 18014398509481984))) X_double = Finite (- (8106479329266893 / 9007199254740992))"
    using round_double_nearest [of "- 1" "(- (8106479329266893 / 18014398509481984)) * 2" "- 8106479329266893"]
    by (simp add: X_double_def pow2_def double_truediv_def)
  have p4: "double_truediv (Finite (- (8106479329266893 / 9007199254740992))) Y_double = Inr (Finite (- (3242591731706757 / 18014398509481984)))"
    using round_double_nearest [of "- 3" "(- (8106479329266893 / 9007199254740992)) / 5" "- 6485183463413514"]
    by (simp add: Y_double_def pow2_def double_truediv_def)
  have p5: "double_mul (Finite (- (3242591731706757 / 18014398509481984))) mu_double = Finite (- (2026619832316723 / 2251799813685248))"
    using round_double_tie [of "- 1" "(- (3242591731706757 / 18014398509481984)) * 5" "- 8106479329266892"]
    by (simp add: mu_double_def pow2_def double_truediv_def)
  have p6: "delta_double = Finite (1152921504606847 / 1152921504606846976)"
    using round_double_nearest [of "- 10" "1 / 1000" "4611686018427388"]
    by (simp add: delta_double_def pow2_def double_truediv_def)
  show ?thesis
    by (simp only: dCgdz_double_def p2 p3 p4 p5 p6 and_then_Inr)
qed

lemma dCgdz_double_at_1:
  "dCgdz_double (Finite 1) z = Inr (Finite (- (4150517416584649 / 9223372036854775808)))"
proof -
  have c1: "double_mul (Finite (- (2026619832316723 / 2251799813685248))) (Finite 1) = Finite (- (2026619832316723 / 2251799813685248))"
    using round_double_nearest [of "- 1" "(- (2026619832316723 / 2251799813685248)) * (1)" "- 8106479329266892"]
    by (simp add: pow2_def double_truediv_def)
  have c2: "double_truediv (Finite (- (2026619832316723 / 2251799813685248))) m_double = Inr (Finite (- (2026619832316723 / 2251799813685248)))"
    using round_double_nearest [of "- 1" "(- (2026619832316723 / 2251799813685248)) / 1" "- 8106479329266892"]
    by (simp add: m_double_def pow2_def double_truediv_def)
  have c3: "double_truediv (Finite 1) m_double = Inr (Finite 1)"
    using round_double_nearest [of "0" "(1) / 1" "4503599627370496"]
    by (simp add: m_double_def pow2_def double_truediv_def)
  have c4: "double_add K_double (Finite 1) = Finite 2"
    using round_double_nearest [of "1" "1 + (1)" "4503599627370496"]
    by (simp add: K_double_def pow2_def double_truediv_def)
  have c5: "double_truediv (Finite (- (2026619832316723 / 2251799813685248))) (Finite 2) = Inr (Finite (- (2026619832316723 / 4503599627370496)))"
    using round_double_nearest [of "- 2" "(- (2026619832316723 / 2251799813685248)) / (2)" "- 8106479329266892"]
    by (simp add: pow2_def double_truediv_def)
  have c6: "double_mul (Finite (- (2026619832316723 / 4503599627370496))) (Finite (1152921504606847 / 1152921504606846976)) = Finite (- (4150517416584649 / 9223372036854775808))"
    using round_double_nearest [of "- 12" "(- (2026619832316723 / 4503599627370496)) * (1152921504606847 / 1152921504606846976)" "- 8301034833169298"]
    by (simp add: pow2_def double_truediv_def)
  show ?thesis
    by (simp only: dCgdz_double_constants c1 c2 c3 c4 c5 c6 and_then_Inr)
qed

lemma dCgdz_spec_double_at_1:
  "dCgdz_spec_double (Finite 1) = Inr (Finite (- (2075258708292325 / 4611686018427387904)))"
proof -
  have s1: "alpha_double = Finite (8106479329266893 / 9007199254740992)"
    using round_double_nearest [of "- 1" "9 / 10" "8106479329266893"]
    by (simp add: alpha_double_def pow2_def double_truediv_def)
  have s2: "double_truediv alpha_double V0_double = Inr (Finite (8106479329266893 / 18014398509481984))"
    using round_double_nearest [of "- 2" "(8106479329266893 / 9007199254740992) / 2" "8106479329266893"]
    by (simp add: s1 V0_double_def pow2_def double_truediv_def)
  have s3: "double_truediv X_double Y_double = Inr (Finite (3602879701896397 / 9007199254740992))"
    using round_double_nearest [of "- 2" "2 / 5" "7205759403792794"]
    by (simp add: X_double_def Y_double_def pow2_def double_truediv_def)
  have s4: "double_truediv (Finite 1) m_double = Inr (Finite 1)"
    using round_double_nearest [of "0" "(1) / 1" "4503599627370496"]
    by (simp add: m_double_def pow2_def double_truediv_def)
  have s5: "double_mul (double_neg (Finite (8106479329266893 / 18014398509481984))) (Finite (3602879701896397 / 9007199254740992)) = Finite (- (6485183463413515 / 36028797018963968))"
    using round_double_nearest [of "- 3" "(- (8106479329266893 / 18014398509481984)) * (3602879701896397 / 9007199254740992)" "- 6485183463413515"]
    by (simp add: pow2_def double_truediv_def)
  have s6: "double_mul (Finite (- (6485183463413515 / 36028797018963968))) mu_double = Finite (- (4053239664633447 / 4503599627370496))"
    using round_double_nearest [of "- 1" "(- (6485183463413515 / 36028797018963968)) * 5" "- 8106479329266894"]
    by (simp add: mu_double_def pow2_def double_truediv_def)
  have s7: "double_mul (Finite (- (4053239664633447 / 4503599627370496))) (Finite 1) = Finite (- (4053239664633447 / 4503599627370496))"
    using round_double_nearest [of "- 1" "(- (4053239664633447 / 4503599627370496)) * (1)" "- 8106479329266894"]
    by (simp add: pow2_def double_truediv_def)
  have s8: "double_add K_double (Finite 1) = Finite 2"
    using round_double_nearest [of "1" "1 + (1)" "4503599627370496"]
    by (simp add: K_double_def pow2_def double_truediv_def)
  have s9: "double_truediv (Finite (- (4053239664633447 / 4503599627370496))) (Finite 2) = Inr (Finite (- (4053239664633447 / 9007199254740992)))"
    using round_double_nearest [of "- 2" "(- (4053239664633447 / 4503599627370496)) / (2)" "- 8106479329266894"]
    by (simp add: pow2_def double_truediv_def)
  have s10: "delta_double = Finite (1152921504606847 / 1152921504606846976)"
    using round_double_nearest [of "- 10" "1 / 1000" "4611686018427388"]
    by (simp add: delta_double_def pow2_def double_truediv_def)
  have s11: "double_mul (Finite (- (4053239664633447 / 9007199254740992))) delta_double = Finite (- (2075258708292325 / 4611686018427387904))"
    using round_double_nearest [of "- 12" "(- (4053239664633447 / 9007199254740992)) * (1152921504606847 / 1152921504606846976)" "- 8301034833169300"]
    by (simp add: s10 pow2_def double_truediv_def)
  show ?thesis
    by (simp only: dCgdz_spec_double_def s2 s3 s4 s5 s6 s7 s8 s9 s11 and_then_Inr)
qed

lemma dCgdz_double_at_1e24:
  "dCgdz_double (Finite 999999999999999983222784) z = Inr (Finite (- (8301034833169299 / 9223372036854775808)))"
proof -
  have c1: "double_mul (Finite (- (2026619832316723 / 2251799813685248))) (Finite 999999999999999983222784) = Finite (- 899999999999999958056960)"
    using round_double_nearest [of "79" "(- (2026619832316723 / 2251799813685248)) * (999999999999999983222784)" "- 6705522537231445"]
    by (simp add: pow2_def double_truediv_def)
  have c2: "double_truediv (Finite (- 899999999999999958056960)) m_double = Inr (Finite (- 899999999999999958056960))"
    using round_double_nearest [of "79" "(- 899999999999999958056960) / 1" "- 6705522537231445"]
    by (simp add: m_double_def pow2_def double_truediv_def)
  have c3: "double_truediv (Finite 999999999999999983222784) m_double = Inr (Finite 999999999999999983222784)"
    using round_double_nearest [of "79" "(999999999999999983222784) / 1" "7450580596923828"]
    by (simp add: m_double_def pow2_def double_truediv_def)
  have c4: "double_add K_double (Finite 999999999999999983222784) = Finite 999999999999999983222784"
    using round_double_nearest [of "79" "1 + (999999999999999983222784)" "7450580596923828"]
    by (simp add: K_double_def pow2_def double_truediv_def)
  have c5: "double_truediv (Finite (- 899999999999999958056960)) (Finite 999999999999999983222784) = Inr (Finite (- (8106479329266893 / 9007199254740992)))"
    using round_double_nearest [of "- 1" "(- 899999999999999958056960) / (999999999999999983222784)" "- 8106479329266893"]
    by (simp add: pow2_def double_truediv_def)
  have c6: "double_mul (Finite (- (8106479329266893 / 9007199254740992))) (Finite (1152921504606847 / 1152921504606846976)) = Finite (- (8301034833169299 / 9223372036854775808))"
    using round_double_nearest [of "- 11" "(- (8106479329266893 / 9007199254740992)) * (1152921504606847 / 1152921504606846976)" "- 8301034833169299"]
    by (simp add: pow2_def double_truediv_def)
  show ?thesis
    by (simp only: dCgdz_double_constants c1 c2 c3 c4 c5 c6 and_then_Inr)
qed

lemma double_1e24: "round_double (10 ^ 24) = Finite 999999999999999983222784"
  using round_double_nearest [of "79" "10 ^ 24" "7450580596923828"]
  by (simp add: pow2_def)

text \<open>
  C1 (as stated) fails in doubles. At \<open>Cg = 1.0\<close> the program returns
  \<open>-0.00045\<close>, the double \<open>-4150517416584649 / 2\<^sup>6\<^sup>3\<close>. The grouping of the
  specification evaluates to the next double, \<open>-0.0004500000000000001\<close>, and the
  exact value of the expression, \<open>-9/20000\<close>, is neither.
\<close>

theorem dCgdz_double_grouping_counterexample:
  "dCgdz_double (Finite 1) (Finite 0) = Inr (Finite (- (4150517416584649 / 9223372036854775808)))
   \<and> dCgdz_spec_double (Finite 1) = Inr (Finite (- (2075258708292325 / 4611686018427387904)))
   \<and> dCgdz_spec 1 = Inr (- (9 / 20000))
   \<and> dCgdz_double (Finite 1) (Finite 0) \<noteq> dCgdz_spec_double (Finite 1)
   \<and> dCgdz_double (Finite 1) (Finite 0) \<noteq> Inr (Finite (- (9 / 20000)))"
proof -
  have exact: "dCgdz_spec 1 = Inr (- (9 / 20000))"
    by (simp add: dCgdz_spec_def truediv_def parameter_defs)
  show ?thesis
    by (simp add: dCgdz_double_at_1 dCgdz_spec_double_at_1 exact)
qed

text \<open>
  C10 (as stated) fails in doubles. The double \<open>1e24\<close> is a nonnegative
  concentration, and there the program returns \<open>-0.0009000000000000001\<close>, the
  double \<open>-8301034833169299 / 2\<^sup>6\<^sup>3\<close>, which is below \<open>-0.0009\<close>: outside the
  interval, and larger in magnitude than \<open>0.0009\<close>.
\<close>

theorem dCgdz_double_bound_counterexample:
  "round_double (10 ^ 24) = Finite 999999999999999983222784
   \<and> (0 :: rat) \<le> 999999999999999983222784
   \<and> dCgdz_double (Finite 999999999999999983222784) (Finite 0) = Inr (Finite (- (8301034833169299 / 9223372036854775808)))
   \<and> \<not> - (9 / 10000) < (- (8301034833169299 / 9223372036854775808) :: rat)
   \<and> \<not> \<bar>- (8301034833169299 / 9223372036854775808) :: rat\<bar> < 9 / 10000"
  using double_1e24 dCgdz_double_at_1e24 [of "Finite 0"] by simp

subsection \<open>Error bound\<close>

text \<open>
  Every rounded operation is off by at most a relative \<open>2\<^sup>-\<^sup>5\<^sup>3\<close> plus half a
  subnormal step, and keeps the sign. Carried through the six operations that
  involve \<open>Cg\<close>, this bounds the returned double for every nonnegative \<open>Cg\<close> up to
  the largest finite double.
\<close>

lemma dCgdz_double_interval:
  assumes nonneg: "0 \<le> Cg" and bounded: "Cg \<le> pow2 1024 - pow2 971"
  shows "\<exists>v. dCgdz_double (Finite Cg) z = Inr (Finite v)
           \<and> - (9 / 10000) * (1 + 1 / 2 ^ 49) \<le> v \<and> v \<le> 0
           \<and> - v \<le> 9 / 10000 * (1 + 1 / 2 ^ 49) * Cg + 1 / 2 ^ 1074"
proof -
  define c0 :: rat where "c0 = 2026619832316723 / 2251799813685248"
  define d0 :: rat where "d0 = 1152921504606847 / 1152921504606846976"
  define T :: rat where "T = pow2 1024 - pow2 970"
  have Tval: "T = 2 ^ 1024 - 2 ^ 970" by (simp add: T_def pow2_def)
  have fin: "Cg \<le> 2 ^ 1024 - 2 ^ 971" using bounded by (simp add: pow2_def)
  \<comment> \<open>the product with the constant\<close>
  have "\<bar>- c0 * Cg\<bar> < pow2 1024 - pow2 970"
    using nonneg fin unfolding T_def [symmetric] Tval c0_def by (simp add: abs_mult)
  from round_double_error [OF this] obtain A where
    A: "round_double (- c0 * Cg) = Finite A"
    and A_err: "\<bar>A - (- c0 * Cg)\<bar> \<le> \<bar>- c0 * Cg\<bar> / 2 ^ 53 + 1 / 2 ^ 1075"
    and A_abs: "\<bar>A\<bar> \<le> pow2 1024 - pow2 971"
    and A_neg: "A \<le> 0" using nonneg by (auto simp: c0_def mult_nonneg_nonneg)
  have A_up: "- A \<le> c0 * Cg + c0 * Cg / 2 ^ 53 + 1 / 2 ^ 1075"
    using A_err nonneg by (simp add: c0_def abs_mult)
  \<comment> \<open>division by \<open>m\<close>\<close>
  have "\<bar>A\<bar> < pow2 1024 - pow2 970" using A_abs by (simp add: pow2_def)
  from round_double_error [OF this] obtain t3 where
    t3: "round_double A = Finite t3"
    and t3_err: "\<bar>t3 - A\<bar> \<le> \<bar>A\<bar> / 2 ^ 53 + 1 / 2 ^ 1075"
    and t3_neg: "t3 \<le> 0" using A_neg by auto
  have t3_up: "- t3 \<le> - A + - A / 2 ^ 53 + 1 / 2 ^ 1075"
    using t3_err A_neg by simp
  \<comment> \<open>the divisor\<close>
  have "\<bar>Cg\<bar> < pow2 1024 - pow2 970" using nonneg fin by (simp add: pow2_def)
  from round_double_error [OF this] obtain q where
    q: "round_double Cg = Finite q"
    and q_err: "\<bar>q - Cg\<bar> \<le> \<bar>Cg\<bar> / 2 ^ 53 + 1 / 2 ^ 1075"
    and q_abs: "\<bar>q\<bar> \<le> pow2 1024 - pow2 971"
    and q_pos: "0 \<le> q" using nonneg by auto
  have q_low: "Cg - Cg / 2 ^ 53 - 1 / 2 ^ 1075 \<le> q" using q_err nonneg by simp
  have "\<bar>1 + q\<bar> < pow2 1024 - pow2 970" using q_abs q_pos by (simp add: pow2_def)
  from round_double_error [OF this] obtain b where
    b: "round_double (1 + q) = Finite b"
    and b_err: "\<bar>b - (1 + q)\<bar> \<le> \<bar>1 + q\<bar> / 2 ^ 53 + 1 / 2 ^ 1075" by auto
  have b_low: "(1 + q) - (1 + q) / 2 ^ 53 - 1 / 2 ^ 1075 \<le> b" using b_err q_pos by simp
  have b_low1: "1 - 1 / 2 ^ 53 - 1 / 2 ^ 1075 \<le> b" using b_low q_pos by (simp add: add_divide_distrib diff_divide_distrib; linarith)
  have b_pos: "0 < b" using b_low1 by simp
  \<comment> \<open>the quotient\<close>
  define Q where "Q = - t3 / b"
  have Q_pos: "0 \<le> Q" using t3_neg b_pos by (simp add: Q_def divide_nonpos_pos)
  define Kc where "Kc = c0 * (1 + 1 / 2 ^ 50)"
  have "- t3 \<le> Kc * b"
    using t3_up A_up b_low q_low nonneg unfolding Kc_def c0_def
    by (simp add: add_divide_distrib diff_divide_distrib; linarith)
  then have Q_const': "Q \<le> Kc"
    unfolding Q_def using b_pos by (simp only: pos_divide_le_eq)
  then have Q_const: "Q \<le> c0 * (1 + 1 / 2 ^ 50)" by (simp only: Kc_def)
  have Q_lin: "Q \<le> - t3 / (1 - 1 / 2 ^ 53 - 1 / 2 ^ 1075)"
    unfolding Q_def using t3_neg b_low1 by (intro frac_le) simp_all
  have tq: "t3 / b = - Q" by (simp add: Q_def)
  have "Kc < pow2 1024 - pow2 970" by (simp add: Kc_def c0_def pow2_def)
  with Q_const' Q_pos have "\<bar>t3 / b\<bar> < pow2 1024 - pow2 970" unfolding tq by simp
  from round_double_error [OF this] obtain t4 where
    t4: "round_double (t3 / b) = Finite t4"
    and t4_err: "\<bar>t4 - t3 / b\<bar> \<le> \<bar>t3 / b\<bar> / 2 ^ 53 + 1 / 2 ^ 1075"
    and t4_neg: "t4 \<le> 0" using Q_pos unfolding tq by auto
  have t4_up: "- t4 \<le> Q + Q / 2 ^ 53 + 1 / 2 ^ 1075"
    using t4_err Q_pos unfolding tq by simp
  \<comment> \<open>the product with \<open>delta\<close>\<close>
  define P where "P = - t4 * d0"
  have P_pos: "0 \<le> P" using t4_neg by (simp add: P_def d0_def mult_nonneg_nonneg)
  have tp: "t4 * d0 = - P" by (simp add: P_def)
  have P_up: "P \<le> (Q + Q / 2 ^ 53 + 1 / 2 ^ 1075) * d0"
    unfolding P_def using t4_up by (intro mult_right_mono) (simp_all add: d0_def)
  have P_small: "P \<le> 1"
    using P_up Q_const unfolding c0_def d0_def
    by (simp add: add_divide_distrib diff_divide_distrib distrib_right; linarith)
  have "(1 :: rat) < pow2 1024 - pow2 970" by (simp add: pow2_def)
  with P_small P_pos have "\<bar>t4 * d0\<bar> < pow2 1024 - pow2 970" unfolding tp by simp
  from round_double_error [OF this] obtain v where
    v: "round_double (t4 * d0) = Finite v"
    and v_err: "\<bar>v - t4 * d0\<bar> \<le> \<bar>t4 * d0\<bar> / 2 ^ 53 + 1 / 2 ^ 1075"
    and v_neg: "v \<le> 0" using P_pos unfolding tp by auto
  have v_up: "- v \<le> P + P / 2 ^ 53 + 1 / 2 ^ 1075"
    using v_err P_pos unfolding tp by simp
  have bound1: "- (9 / 10000) * (1 + 1 / 2 ^ 49) \<le> v"
    using v_up P_up Q_const unfolding c0_def d0_def
    by (simp add: add_divide_distrib diff_divide_distrib distrib_right; linarith)
  have bound2: "- v \<le> 9 / 10000 * (1 + 1 / 2 ^ 49) * Cg + 1 / 2 ^ 1074"
    using v_up P_up Q_lin t3_up A_up nonneg unfolding c0_def d0_def
    by (simp add: add_divide_distrib diff_divide_distrib distrib_right; linarith)
  have "dCgdz_double (Finite Cg) z = Inr (Finite v)"
    using A t3 q b t4 v b_pos
    by (simp add: dCgdz_double_constants double_truediv_def m_double_def K_double_def
        c0_def d0_def)
  with bound1 v_neg bound2 show ?thesis by blast
qed

text \<open>
  C10 (amended). In exact arithmetic, with the hard-coded parameters, the rate is
  \<open>-0.0009 \<cdot> Cg / (1 + Cg)\<close> wherever \<open>1 + Cg\<close> is not zero, and for \<open>Cg \<ge> 0\<close>
  this value lies in \<open>(-0.0009, 0]\<close> with magnitude at most \<open>0.0009 \<cdot> Cg\<close>. The
  double that the program returns for a finite \<open>Cg \<ge> 0\<close> lies in
  \<open>[-0.0009 \<cdot> (1 + 2\<^sup>-\<^sup>4\<^sup>9), 0]\<close>, and its magnitude is at most
  \<open>0.0009 \<cdot> (1 + 2\<^sup>-\<^sup>4\<^sup>9) \<cdot> Cg + 2\<^sup>-\<^sup>1\<^sup>0\<^sup>7\<^sup>4\<close>.
\<close>

theorem dCgdz_simplified_bounds:
  "dCgdz Cg z =
     (if 1 + Cg = 0 then Inl ZeroDivisionError else Inr (- (9 / 10000) * Cg / (1 + Cg)))
   \<and> (0 \<le> Cg \<longrightarrow>
        (\<exists>v. dCgdz Cg z = Inr v \<and> - (9 / 10000) < v \<and> v \<le> 0
           \<and> \<bar>v\<bar> < 9 / 10000 \<and> \<bar>v\<bar> \<le> 9 / 10000 * Cg))
   \<and> (0 \<le> c \<and> c \<le> max_double \<longrightarrow>
        (\<exists>w. dCgdz_double (Finite c) zd = Inr (Finite w)
           \<and> - (9 / 10000) * (1 + 1 / 2 ^ 49) \<le> w \<and> w \<le> 0
           \<and> - w \<le> 9 / 10000 * (1 + 1 / 2 ^ 49) * c + 1 / 2 ^ 1074))"
proof -
  note exact = dCgdz_exact_bounds [of Cg z]
  have rounded: "0 \<le> c \<and> c \<le> max_double \<longrightarrow>
        (\<exists>w. dCgdz_double (Finite c) zd = Inr (Finite w)
           \<and> - (9 / 10000) * (1 + 1 / 2 ^ 49) \<le> w \<and> w \<le> 0
           \<and> - w \<le> 9 / 10000 * (1 + 1 / 2 ^ 49) * c + 1 / 2 ^ 1074)"
    using dCgdz_double_interval [of c zd] unfolding max_double_def by blast
  from exact rounded show ?thesis by blast
qed

theorem dCgdz_simplified_bounds_witness:
  "(0::real) \<le> 1 \<and> dCgdz 1 0 = Inr (- (9 / 20000))
   \<and> - (9 / 10000) < - (9 / 20000 :: real) \<and> - (9 / 20000 :: real) \<le> 0
   \<and> (0 :: rat) \<le> 999999999999999983222784 \<and> (999999999999999983222784 :: rat) \<le> max_double
   \<and> (\<exists>w. dCgdz_double (Finite 999999999999999983222784) (Finite 0) = Inr (Finite w)
          \<and> - (9 / 10000) * (1 + 1 / 2 ^ 49) \<le> w \<and> w \<le> 0)"
proof -
  have range: "(0 :: rat) \<le> 999999999999999983222784 \<and> (999999999999999983222784 :: rat) \<le> max_double"
    by (simp add: max_double_def pow2_def)
  from dCgdz_simplified_bounds [of 1 0 "999999999999999983222784" "Finite 0"] range
  show ?thesis by auto
qed

section \<open>Grid, solution and plot\<close>

lemma length_z_grid: "length z_grid = 100"
  by (simp add: z_grid_def linspace_def)

lemma z_grid_nth:
  assumes "i < 100"
  shows "z_grid ! i = real i * (5 / 99)"
  using assms by (simp add: z_grid_def linspace_def)

lemma z_grid_step:
  assumes "Suc i < 100"
  shows "z_grid ! Suc i - z_grid ! i = 5 / 99"
proof -
  from assms have "i < 100" by simp
  with assms have "z_grid ! Suc i - z_grid ! i = real (Suc i) * (5 / 99) - real i * (5 / 99)"
    by (simp only: z_grid_nth)
  also have "\<dots> = 5 / 99" by (simp add: algebra_simps)
  finally show ?thesis .
qed

lemma z_grid_increasing: "sorted_wrt (<) z_grid"
proof -
  have "z_grid ! i < z_grid ! j" if "i < j" "j < length z_grid" for i j
  proof -
    from that have "i < 100" "j < 100" by (simp_all add: length_z_grid)
    then have "z_grid ! i = real i * (5 / 99)" "z_grid ! j = real j * (5 / 99)"
      by (simp_all only: z_grid_nth)
    with \<open>i < j\<close> show ?thesis by simp
  qed
  then show ?thesis by (simp add: sorted_wrt_iff_nth_less)
qed

text \<open>
  C4. The grid has exactly 100 values, starts at 0, ends at 5, and each value
  exceeds its predecessor by the same spacing \<open>5/99\<close>; so it is strictly
  increasing.
\<close>

theorem z_grid_evenly_spaced:
  "length z_grid = 100 \<and> hd z_grid = 0 \<and> last z_grid = 5
   \<and> (\<forall>i. Suc i < length z_grid \<longrightarrow> z_grid ! Suc i - z_grid ! i = 5 / 99)
   \<and> sorted_wrt (<) z_grid"
proof -
  have nonempty: "z_grid \<noteq> []" using length_z_grid by auto
  have "hd z_grid = z_grid ! 0" using nonempty by (simp add: hd_conv_nth)
  then have first: "hd z_grid = 0" by (simp add: z_grid_nth)
  have "last z_grid = z_grid ! 99" using nonempty by (simp add: last_conv_nth length_z_grid)
  then have final: "last z_grid = 5" by (simp add: z_grid_nth)
  have steps: "\<forall>i. Suc i < length z_grid \<longrightarrow> z_grid ! Suc i - z_grid ! i = 5 / 99"
    by (simp add: length_z_grid z_grid_step)
  from length_z_grid first final steps z_grid_increasing show ?thesis by blast
qed

theorem z_grid_evenly_spaced_witness:
  "Suc 41 < length z_grid \<and> z_grid ! Suc 41 - z_grid ! 41 = 5 / 99"
proof -
  from z_grid_evenly_spaced have len: "length z_grid = 100"
    and steps: "\<forall>i. Suc i < length z_grid \<longrightarrow> z_grid ! Suc i - z_grid ! i = 5 / 99"
    by blast+
  from len have "Suc 41 < length z_grid" by simp
  with steps show ?thesis by blast
qed

lemma advance_length:
  assumes "advance lsoda f y t ts = Inr ys"
  shows "length ys = length ts"
  using assms
proof (induction ts arbitrary: y t ys)
  case Nil
  then show ?case by simp
next
  case (Cons tout ts)
  from Cons.prems obtain y' where step: "lsoda f y t tout = Inr y'"
    by (cases "lsoda f y t tout") simp_all
  with Cons.prems obtain rest where tail: "advance lsoda f y' tout ts = Inr rest"
    by (cases "advance lsoda f y' tout ts") simp_all
  with step Cons.prems have "ys = y' # rest" by simp
  moreover from tail have "length rest = length ts" by (rule Cons.IH)
  ultimately show ?case by simp
qed

lemma odeint_shape:
  assumes "odeint lsoda f y0 ts = Inr ys" and "ts \<noteq> []"
  shows "length ys = length ts \<and> ys ! 0 = y0"
proof -
  from \<open>ts \<noteq> []\<close> obtain t0 rest where ts: "ts = t0 # rest" by (cases ts) simp_all
  with assms(1) obtain tl where tail: "advance lsoda f y0 t0 rest = Inr tl"
    by (cases "advance lsoda f y0 t0 rest") (simp_all add: odeint_def)
  with ts assms(1) have "ys = y0 # tl" by (simp add: odeint_def)
  moreover from tail have "length tl = length rest" by (rule advance_length)
  ultimately show ?thesis using ts by simp
qed

lemma advance_hold:
  "advance (\<lambda>f y t tout. Inr y) f y t ts = Inr (replicate (length ts) y)"
  by (induction ts arbitrary: t) simp_all

lemma odeint_hold:
  assumes "ts \<noteq> []"
  shows "odeint (\<lambda>f y t tout. Inr y) f y0 ts = Inr (replicate (length ts) y0)"
proof -
  from assms obtain t0 rest where "ts = t0 # rest" by (cases ts) simp_all
  then show ?thesis by (simp add: odeint_def advance_hold)
qed

text \<open>
  C5. Whatever the stepper, a solution returned for the script's call has one
  entry per grid point, 100 in all, its first entry is the initial condition
  \<open>Cg0\<close>, and the first entry of the normalised sequence is 1.
\<close>

theorem odeint_solution_shape:
  assumes "odeint lsoda dCgdz Cg0 z_grid = Inr ys"
  shows "length ys = length z_grid \<and> length ys = 100 \<and> ys ! 0 = Cg0
         \<and> map (\<lambda>v. v / Cg0) ys ! 0 = 1"
proof -
  have "z_grid \<noteq> []" using length_z_grid by auto
  with assms have shape: "length ys = length z_grid \<and> ys ! 0 = Cg0"
    by (rule odeint_shape)
  then have len: "length ys = 100" by (simp add: length_z_grid)
  have "Cg0 \<noteq> 0" by (simp add: Cg0_def)
  with shape len have "map (\<lambda>v. v / Cg0) ys ! 0 = 1" by simp
  with shape len show ?thesis by simp
qed

theorem odeint_solution_shape_witness:
  "odeint (\<lambda>f y t tout. Inr y) dCgdz Cg0 z_grid = Inr (replicate 100 Cg0)
   \<and> length (replicate 100 Cg0) = 100 \<and> replicate 100 Cg0 ! 0 = Cg0
   \<and> map (\<lambda>v. v / Cg0) (replicate 100 Cg0) ! 0 = 1"
proof -
  have "z_grid \<noteq> []" using length_z_grid by auto
  then have held: "odeint (\<lambda>f y t tout. Inr y) dCgdz Cg0 z_grid = Inr (replicate 100 Cg0)"
    by (simp add: odeint_hold length_z_grid)
  from odeint_solution_shape [OF held] held show ?thesis by blast
qed

text \<open>
  C8. The plot step draws one line, the grid on the horizontal axis against the
  solution divided elementwise by \<open>Cg0\<close> on the vertical axis, labels the axes
  \<open>z [m]\<close> and \<open>Cg [g/L]\<close>, shows the window and writes no file.
\<close>

theorem visualise_figure:
  "visualise z_grid ys =
     \<lparr>lines = [(z_grid, map (\<lambda>v. v / Cg0) ys)], xlabel = ''z [m]'',
      ylabel = ''Cg [g/L]'', shown = True, files = []\<rparr>"
  by (simp add: visualise_def plot_calls_def new_figure_def)

end
